theory Spec2Isabelle
  imports Complex_Main "HOL-Library.AList"
begin

section \<open>Strings\<close>

text \<open>
  Python strings are modelled as \<open>string\<close> over the ASCII range. The character classes
  are the ASCII part of what \<open>str.strip\<close>, \<open>str.isspace\<close>, \<open>\s\<close>, \<open>\d\<close>,
  \<open>str.isdigit\<close> and \<open>str.lower\<close> use: the white space characters are the codes
  9..13 and 28..32, the digits are \<open>0\<close>..\<open>9\<close>.
\<close>

definition is_space :: "char \<Rightarrow> bool" where
  "is_space c = (let n = (of_char c :: nat) in (9 \<le> n \<and> n \<le> 13) \<or> (28 \<le> n \<and> n \<le> 32))"

definition is_digit :: "char \<Rightarrow> bool" where
  "is_digit c = (48 \<le> (of_char c :: nat) \<and> (of_char c :: nat) \<le> 57)"

definition lower_char :: "char \<Rightarrow> char" where
  "lower_char c = (let n = (of_char c :: nat) in if 65 \<le> n \<and> n \<le> 90 then char_of (n + 32) else c)"

definition lower :: "string \<Rightarrow> string" where
  "lower s = map lower_char s"

definition strip :: "string \<Rightarrow> string" where
  "strip s = rev (dropWhile is_space (rev (dropWhile is_space s)))"

definition startswith :: "string \<Rightarrow> string \<Rightarrow> bool" where
  "startswith s p = (take (length p) s = p)"

text \<open>\<open>contains s sub\<close> is Python's \<open>sub in s\<close>.\<close>

fun contains :: "string \<Rightarrow> string \<Rightarrow> bool" where
  "contains [] sub = (sub = [])"
| "contains (c # cs) sub = (startswith (c # cs) sub \<or> contains cs sub)"

text \<open>\<open>str.isdigit\<close>: a non-empty string of digits.\<close>

definition isdigit :: "string \<Rightarrow> bool" where
  "isdigit s = (s \<noteq> [] \<and> list_all is_digit s)"

definition digit_val :: "char \<Rightarrow> nat" where
  "digit_val c = of_char c - 48"

text \<open>\<open>int(s)\<close> on a string of digits (leading zeros allowed, no bound on the size).\<close>

definition int_of_digits :: "string \<Rightarrow> nat" where
  "int_of_digits s = foldl (\<lambda>a c. 10 * a + digit_val c) 0 s"

text \<open>
  \<open>float(s)\<close> on a string of the form \<open>\d+(\.\d+)?\<close>. Python floats are modelled as
  exact reals: rounding to binary64, infinities and the overflow of an integer too large
  for a float are outside the model.
\<close>

definition float_of_decimal :: "string \<Rightarrow> real" where
  "float_of_decimal s =
     (let ip = takeWhile is_digit s; r = dropWhile is_digit s
      in case r of
           [] \<Rightarrow> of_nat (int_of_digits ip)
         | _ # fp \<Rightarrow> of_nat (int_of_digits ip) + of_nat (int_of_digits fp) / 10 ^ length fp)"

text \<open>\<open>str(n)\<close> for an integer: its decimal digits, with a minus sign when negative.\<close>

definition digit_char :: "nat \<Rightarrow> char" where
  "digit_char d = char_of (48 + d)"

fun show_nat :: "nat \<Rightarrow> string" where
  "show_nat n = (if n < 10 then [digit_char n] else show_nat (n div 10) @ [digit_char (n mod 10)])"

declare show_nat.simps [simp del]

definition show_int :: "int \<Rightarrow> string" where
  "show_int i = (if i < 0 then CHR ''-'' # show_nat (nat (- i)) else show_nat (nat i))"

text \<open>
  \<open>normalize(s) = re.sub(r"\s+", " ", str(s).strip())\<close>: every run of white space
  inside the stripped string becomes one space.
\<close>

function collapse_ws :: "string \<Rightarrow> string" where
  "collapse_ws [] = []"
| "collapse_ws (c # cs) =
     (if is_space c then CHR '' '' # collapse_ws (dropWhile is_space cs)
      else c # collapse_ws cs)"
  by pat_completeness auto
termination
  by (relation "measure length") (auto simp: length_dropWhile_le less_Suc_eq_le)

definition normalize_str :: "string \<Rightarrow> string" where
  "normalize_str s = collapse_ws (strip s)"

text \<open>
  \<open>normalize_key(s) = re.sub(r"[^a-z0-9]+", "", str(s).strip().lower())\<close>: only the
  lower-case letters and the digits of the stripped, lower-cased string stay.
\<close>

definition is_lower_alnum :: "char \<Rightarrow> bool" where
  "is_lower_alnum c =
     (let n = (of_char c :: nat) in (97 \<le> n \<and> n \<le> 122) \<or> (48 \<le> n \<and> n \<le> 57))"

definition normalize_key :: "string \<Rightarrow> string" where
  "normalize_key s = filter is_lower_alnum (lower (strip s))"

section \<open>Cell values and errors\<close>

text \<open>
  The values a spreadsheet cell or a function argument can hold, one constructor per
  class the code tells apart:
  \<^item> \<open>NA\<close>: what \<open>pd.isna\<close> accepts (\<open>None\<close>, NaN, \<open>NaT\<close>);
  \<^item> \<open>PyBool\<close>, \<open>PyInt\<close>, \<open>PyFloat\<close>: the instances of \<open>(int, float)\<close>
    (\<open>bool\<close> is a subclass of \<open>int\<close>; a float here is finite);
  \<^item> \<open>PyStr\<close>: a string;
  \<^item> \<open>PdTimedelta ns\<close>: a \<open>pd.Timedelta\<close> of \<open>ns\<close> nanoseconds;
  \<^item> \<open>PdTimestamp ns\<close>: a \<open>pd.Timestamp\<close>, \<open>ns\<close> nanoseconds of wall-clock time
    since the epoch;
  \<^item> \<open>DtTime h m s us\<close> and \<open>DtDatetime h m s us\<close>: a \<open>datetime.time\<close> and a
    \<open>datetime.datetime\<close> with these hour, minute, second and microsecond fields (the
    date fields are never read);
  \<^item> \<open>DtTimedelta us\<close>: a \<open>datetime.timedelta\<close> of \<open>us\<close> microseconds;
  \<^item> \<open>PyObj s\<close>: an object of any other class, whose \<open>str()\<close> is \<open>s\<close>.
\<close>

datatype pyval =
    NA
  | PyBool bool
  | PyInt int
  | PyFloat real
  | PyStr string
  | PdTimedelta int
  | PdTimestamp int
  | DtTime nat nat nat nat
  | DtDatetime nat nat nat nat
  | DtTimedelta int
  | PyObj string

text \<open>
  The exceptions of the program, as values:
  \<^item> \<open>ValueError_time x\<close>: \<open>ValueError(f"Unrecognized time format: {x!r}")\<close>;
  \<^item> \<open>RuntimeError_age cols\<close>:
    \<open>RuntimeError(f"Could not locate Age column. Columns: {list(cols)}")\<close>;
  \<^item> \<open>RuntimeError_sheets missing sheets\<close>:
    \<open>RuntimeError(f"{path.name}: missing sheets {missing}. Available: {sheets}")\<close>;
  \<^item> \<open>CastError x\<close>: what \<open>float(x)\<close> raises on a value it cannot convert.
\<close>

datatype error =
    ValueError_time pyval
  | RuntimeError_age "string list"
  | RuntimeError_sheets "string list" "string list"
  | CastError pyval

text \<open>\<open>pd.isna(x)\<close> and \<open>pd.notna(x)\<close> on a scalar.\<close>

definition isna :: "pyval \<Rightarrow> bool" where
  "isna x = (x = NA)"

definition notna :: "pyval \<Rightarrow> bool" where
  "notna x = (x \<noteq> NA)"

text \<open>
  \<open>str(x)\<close>, for the classes whose text the model determines. The text of a float is
  its shortest decimal representation (always with a \<open>.\<close>, an \<open>e\<close>, \<open>inf\<close> or
  \<open>nan\<close>) and the text of a time, date or duration always holds a \<open>:\<close> or a
  \<open>-\<close>; these texts are not modelled (\<open>None\<close>).
\<close>

fun py_str :: "pyval \<Rightarrow> string option" where
  "py_str (PyBool b) = Some (if b then ''True'' else ''False'')"
| "py_str (PyInt n) = Some (show_int n)"
| "py_str (PyStr s) = Some s"
| "py_str (PyObj s) = Some s"
| "py_str x = None"

section \<open>The time pattern\<close>




text \<open>
  \<open>TIME_RE.match\<close>, with the groups it captures. \<open>\d+\<close> takes the longest run of
  digits (a shorter run is followed by a digit, where the pattern wants \<open>:\<close>, \<open>.\<close>
  or the end). \<open>match_sec\<close> matches \<open>(\d+(?:\.\d+)?)$\<close> against a whole string, which
  is then group 3; \<open>match_min_sec\<close> matches \<open>(\d+):(\d+(?:\.\d+)?)$\<close> and returns
  groups 2 and 3; \<open>TIME_RE_match\<close> tries the optional hours group first and gives it
  up when the rest does not match.
\<close>

definition match_sec :: "string \<Rightarrow> bool" where
  "match_sec s =
     (let ss = takeWhile is_digit s; r = dropWhile is_digit s
      in ss \<noteq> [] \<and> (case r of [] \<Rightarrow> True | d # fs \<Rightarrow> d = CHR ''.'' \<and> isdigit fs))"

definition match_min_sec :: "string \<Rightarrow> (string \<times> string) option" where
  "match_min_sec s =
     (let mm = takeWhile is_digit s; r = dropWhile is_digit s
      in if mm = [] then None
         else case r of
                [] \<Rightarrow> None
              | c # r2 \<Rightarrow> if c = CHR '':'' \<and> match_sec r2 then Some (mm, r2) else None)"

definition TIME_RE_match :: "string \<Rightarrow> (string option \<times> string \<times> string) option" where
  "TIME_RE_match s =
     (let h = takeWhile is_digit s; r1 = dropWhile is_digit s;
          with_hours =
            (if h = [] then None
             else case r1 of [] \<Rightarrow> None
                  | c # r2 \<Rightarrow> if c = CHR '':'' then match_min_sec r2 else None)
      in case with_hours of
           Some (mm, ss) \<Rightarrow> Some (Some h, mm, ss)
         | None \<Rightarrow>
             (case match_min_sec s of
                Some (mm, ss) \<Rightarrow> Some (None, mm, ss)
              | None \<Rightarrow> None))"

section \<open>Value normalizers\<close>

text \<open>The last branch of \<open>hms_to_seconds\<close>: \<open>x\<close> is the argument, \<open>t\<close> its \<open>str()\<close>.\<close>

definition hms_of_text :: "pyval \<Rightarrow> string \<Rightarrow> error + real option" where
  "hms_of_text x t =
     (case TIME_RE_match (strip t) of
        None \<Rightarrow> Inl (ValueError_time x)
      | Some (g1, g2, g3) \<Rightarrow>
          (let h = (case g1 of None \<Rightarrow> 0 | Some hs \<Rightarrow> int_of_digits hs);
               mm = int_of_digits g2;
               ss = float_of_decimal g3
           in Inr (Some (of_nat (h * 3600 + mm * 60) + ss))))"

text \<open>The branch for an instance of \<open>(int, float)\<close>, on \<open>v = float(x)\<close>.\<close>

definition hms_of_number :: "real \<Rightarrow> error + real option" where
  "hms_of_number v = (if 0 < v \<and> v \<le> 1 then Inr (Some (v * 86400)) else Inr (Some v))"

fun hms_to_seconds :: "pyval \<Rightarrow> error + real option" where
  "hms_to_seconds NA = Inr None"
| "hms_to_seconds (PdTimedelta ns) = Inr (Some (of_int ns / 10 ^ 9))"
| "hms_to_seconds (PdTimestamp ns) = Inr (Some (of_int (ns - (ns - ns mod (86400 * 10 ^ 9))) / 10 ^ 9))"
| "hms_to_seconds (DtTime h m s us) = Inr (Some (of_nat (h * 3600 + m * 60 + s) + of_nat us / 1000000))"
| "hms_to_seconds (DtDatetime h m s us) = Inr (Some (of_nat (h * 3600 + m * 60 + s) + of_nat us / 1000000))"
| "hms_to_seconds (DtTimedelta us) = Inr (Some (of_int us / 10 ^ 6))"
| "hms_to_seconds (PyBool b) = hms_of_number (if b then 1 else 0)"
| "hms_to_seconds (PyInt n) = hms_of_number (of_int n)"
| "hms_to_seconds (PyFloat v) = hms_of_number v"
| "hms_to_seconds (PyStr s) = hms_of_text (PyStr s) s"
| "hms_to_seconds (PyObj s) = hms_of_text (PyObj s) s"

text \<open>
  \<open>num_to_int_if_whole\<close> returns \<open>int | float | None\<close>. Its cast \<open>float(x)\<close> is
  \<open>py_float\<close>: the value of a number; on any other argument \<open>float\<close> parses a string
  by Python's grammar of float literals, asks an object for its \<open>__float__\<close> and raises
  on the rest. What it does there is the parameter \<open>float_other\<close>. \<open>int(v)\<close> truncates
  towards zero.
\<close>

datatype jnum = JInt int | JFloat real

definition py_float :: "(pyval \<Rightarrow> error + real) \<Rightarrow> pyval \<Rightarrow> error + real" where
  "py_float float_other x =
     (case x of
        PyBool b \<Rightarrow> Inr (if b then 1 else 0)
      | PyInt n \<Rightarrow> Inr (of_int n)
      | PyFloat v \<Rightarrow> Inr v
      | _ \<Rightarrow> float_other x)"

definition is_integer :: "real \<Rightarrow> bool" where
  "is_integer v = (v = of_int \<lfloor>v\<rfloor>)"

definition py_int_of_float :: "real \<Rightarrow> int" where
  "py_int_of_float v = (if 0 \<le> v then \<lfloor>v\<rfloor> else \<lceil>v\<rceil>)"

definition num_to_int_if_whole :: "(pyval \<Rightarrow> error + real) \<Rightarrow> pyval \<Rightarrow> error + jnum option" where
  "num_to_int_if_whole float_other x =
     (if isna x then Inr None
      else case py_float float_other x of
             Inl e \<Rightarrow> Inl e
           | Inr v \<Rightarrow> if is_integer v then Inr (Some (JInt (py_int_of_float v)))
                      else Inr (Some (JFloat v)))"

section \<open>Header and age column detection\<close>

text \<open>
  \<open>find_header_row\<close> reads the raw grid through \<open>raw_df.iloc[r].astype(str)\<close>: the grid
  is given as the rows of its cells' texts. The loop over
  \<open>range(min(max_rows, len(raw_df)))\<close> is \<open>find_header_from\<close>, which carries the row
  index.
\<close>

definition row_has_needle :: "string \<Rightarrow> string list \<Rightarrow> bool" where
  "row_has_needle needle row =
     list_ex (\<lambda>v. v = needle \<or> startswith v needle) (map (\<lambda>c. lower (strip c)) row)"

fun find_header_from :: "nat \<Rightarrow> string \<Rightarrow> string list list \<Rightarrow> nat option" where
  "find_header_from r needle [] = None"
| "find_header_from r needle (row # rest) =
     (if row_has_needle needle row then Some r else find_header_from (Suc r) needle rest)"

definition find_header_row :: "string list list \<Rightarrow> string \<Rightarrow> nat \<Rightarrow> nat option" where
  "find_header_row raw_df needle max_rows =
     find_header_from 0 needle (take (min max_rows (length raw_df)) raw_df)"

text \<open>
  \<open>hdr = find_header_row(raw, needle="age") or 0\<close> in
  \<open>read_sheet_with_detected_header\<close>: \<open>None\<close> and \<open>0\<close> are both falsy.
\<close>

definition detected_header :: "string list list \<Rightarrow> nat" where
  "detected_header raw =
     (case find_header_row raw ''age'' 50 of
        None \<Rightarrow> 0
      | Some r \<Rightarrow> if r = 0 then 0 else r)"

definition age_like :: "string \<Rightarrow> bool" where
  "age_like cl =
     (cl = ''age'' \<or> startswith cl ''age '' \<or> startswith cl ''age('' \<or>
      startswith cl ''age/'' \<or> startswith cl ''age-'')"

definition find_age_col :: "string list \<Rightarrow> error + string" where
  "find_age_col cols =
     (case find (\<lambda>c. age_like (lower (strip c))) cols of
        Some c \<Rightarrow> Inr c
      | None \<Rightarrow>
          (case find (\<lambda>c. contains (lower c) ''age'') cols of
             Some c \<Rightarrow> Inr c
           | None \<Rightarrow> Inl (RuntimeError_age cols)))"

section \<open>Sheet resolver\<close>

text \<open>
  \<open>choose_sheets\<close> on the workbook's sheet names. A Python dict is an association list
  with distinct keys in insertion order; \<open>d[k] = v\<close> is \<open>AList.update k v d\<close> and
  \<open>k in d\<close>, \<open>d[k]\<close> read \<open>map_of d k\<close>. \<open>not v\<close> on a \<open>str | None\<close> is
  \<open>py_not\<close>. The result dict \<open>{"factors": .., "sec": .., "hms": ..}\<close> is the record
  \<open>sheets_used\<close>.
\<close>

record sheets_used =
  factors_sheet :: string
  sec_sheet :: string
  hms_sheet :: string

definition by_norm_of :: "string list \<Rightarrow> (string \<times> string) list" where
  "by_norm_of sheets = foldl (\<lambda>d s. AList.update (normalize_key s) s d) [] sheets"

fun pick :: "(string \<times> string) list \<Rightarrow> string list \<Rightarrow> string option" where
  "pick by_norm [] = None"
| "pick by_norm (k # ks) =
     (case map_of by_norm k of Some s \<Rightarrow> Some s | None \<Rightarrow> pick by_norm ks)"

definition py_not :: "string option \<Rightarrow> bool" where
  "py_not v = (v = None \<or> v = Some [])"

definition last_resort :: "string \<Rightarrow> string list \<Rightarrow> string option \<Rightarrow> string option" where
  "last_resort needle sheets v =
     (if py_not v then
        (case find (\<lambda>s. contains (lower s) needle) sheets of
           Some s \<Rightarrow> Some s
         | None \<Rightarrow> v)
      else v)"

definition factors_aliases :: "string list" where
  "factors_aliases =
     [normalize_key ''AgeStdFactors'', normalize_key ''Age Factors'',
      normalize_key ''Age factors'', normalize_key ''Age Facctors'']"

definition sec_aliases :: "string list" where
  "sec_aliases = [normalize_key ''AgeStdSec'', normalize_key ''AgeStanSec'']"

definition hms_aliases :: "string list" where
  "hms_aliases = [normalize_key ''AgeStdHMS'', normalize_key ''AgeStanHMS'']"

definition choose_sheets :: "string list \<Rightarrow> error + sheets_used" where
  "choose_sheets sheets =
     (let by_norm = by_norm_of sheets;
          f = last_resort ''factor'' sheets (pick by_norm factors_aliases);
          s = last_resort ''sec'' sheets (pick by_norm sec_aliases);
          h = last_resort ''hms'' sheets (pick by_norm hms_aliases);
          missing = map fst (filter (\<lambda>(k, v). py_not v)
                      [(''factors'', f), (''sec'', s), (''hms'', h)])
      in if missing \<noteq> [] then Inl (RuntimeError_sheets missing sheets)
         else Inr \<lparr>factors_sheet = the f, sec_sheet = the s, hms_sheet = the h\<rparr>)"

section \<open>Table reshaper\<close>

text \<open>
  A table is the list of its columns in order, each a label with its cells from the
  first row down; \<open>df.columns\<close> is \<open>map fst df\<close> and \<open>df[c]\<close> is \<open>getitem df c\<close>.
  The model covers the tables whose labels are pairwise distinct and whose columns
  have one length (\<open>wf_df\<close>): with a repeated label \<open>df[c]\<close> is a table, not a
  column.
\<close>

type_synonym dataframe = "(string \<times> pyval list) list"

definition wf_df :: "dataframe \<Rightarrow> bool" where
  "wf_df df =
     (distinct (map fst df) \<and>
      list_all (\<lambda>c. length (snd c) = length (snd (hd df))) df)"

definition getitem :: "dataframe \<Rightarrow> string \<Rightarrow> pyval list" where
  "getitem df c = (case map_of df c of Some cells \<Rightarrow> cells | None \<Rightarrow> [])"

text \<open>
  The row filter \<open>pd.notna(x) and str(x).strip().isdigit()\<close> on an age cell, and
  \<open>astype(int)\<close> on a cell that passed it: an integer stays, a text is read by
  \<open>int()\<close>.
\<close>

definition keep_age :: "pyval \<Rightarrow> bool" where
  "keep_age x =
     (notna x \<and> (case py_str x of Some s \<Rightarrow> isdigit (strip s) | None \<Rightarrow> False))"

definition astype_int :: "pyval \<Rightarrow> int" where
  "astype_int x =
     (case x of
        PyInt n \<Rightarrow> n
      | _ \<Rightarrow> (case py_str x of Some s \<Rightarrow> int (int_of_digits (strip s)) | None \<Rightarrow> 0))"

text \<open>Boolean indexing \<open>df[mask]\<close>: the rows where the mask holds.\<close>

definition select_rows :: "bool list \<Rightarrow> dataframe \<Rightarrow> dataframe" where
  "select_rows keep df = map (\<lambda>(c, cells). (c, map snd (filter fst (zip keep cells)))) df"

text \<open>
  The inner loop over \<open>col.iterrows()\<close>: each row gives its age and the event's cell;
  a value the transform rejects ends the call with its error.
\<close>

fun row_loop :: "(pyval \<Rightarrow> error + 'v) \<Rightarrow> (int \<times> pyval) list \<Rightarrow> (string \<times> 'v) list
                 \<Rightarrow> error + (string \<times> 'v) list" where
  "row_loop value_parser [] mapping = Inr mapping"
| "row_loop value_parser ((age, v) # rest) mapping =
     (case value_parser v of
        Inl e \<Rightarrow> Inl e
      | Inr r \<Rightarrow> row_loop value_parser rest (AList.update (show_int age) r mapping))"

fun event_loop :: "(pyval \<Rightarrow> error + 'v) \<Rightarrow> int list \<Rightarrow> dataframe \<Rightarrow> string list
                   \<Rightarrow> (string \<times> (string \<times> 'v) list) list
                   \<Rightarrow> error + (string \<times> (string \<times> 'v) list) list" where
  "event_loop value_parser ages df [] out = Inr out"
| "event_loop value_parser ages df (event # rest) out =
     (case row_loop value_parser (zip ages (getitem df event)) [] of
        Inl e \<Rightarrow> Inl e
      | Inr mapping \<Rightarrow>
          event_loop value_parser ages df rest (AList.update (normalize_str event) mapping out))"

definition df_to_age_event_map ::
  "dataframe \<Rightarrow> (pyval \<Rightarrow> error + 'v)
   \<Rightarrow> error + (int list \<times> string list \<times> (string \<times> (string \<times> 'v) list) list)" where
  "df_to_age_event_map df value_parser =
     (case find_age_col (map fst df) of
        Inl e \<Rightarrow> Inl e
      | Inr age_col \<Rightarrow>
          (let kept = select_rows (map keep_age (getitem df age_col)) df;
               ages = map astype_int (getitem kept age_col);
               events = filter (\<lambda>c. c \<noteq> age_col) (map fst kept)
           in case event_loop value_parser ages kept events [] of
                Inl e \<Rightarrow> Inl e
              | Inr out \<Rightarrow> Inr (ages, map normalize_str events, out)))"

section \<open>The vocabulary of the statements\<close>

text \<open>
  The strings of the form \<open>[H:]MM:SS[.fff]\<close>, built from their parts
  (\<open>time_parts\<close>: every part present is a non-empty digit string), and the number of
  seconds such a string stands for.
\<close>

definition time_string :: "string option \<Rightarrow> string \<Rightarrow> string \<Rightarrow> string option \<Rightarrow> string" where
  "time_string h mm ss f =
     (case h of None \<Rightarrow> [] | Some hs \<Rightarrow> hs @ '':'') @ mm @ '':'' @ ss @
     (case f of None \<Rightarrow> [] | Some fs \<Rightarrow> ''.'' @ fs)"

definition time_parts :: "string option \<Rightarrow> string \<Rightarrow> string \<Rightarrow> string option \<Rightarrow> bool" where
  "time_parts h mm ss f =
     ((case h of None \<Rightarrow> True | Some hs \<Rightarrow> isdigit hs) \<and> isdigit mm \<and> isdigit ss \<and>
      (case f of None \<Rightarrow> True | Some fs \<Rightarrow> isdigit fs))"

definition seconds_of_parts :: "string option \<Rightarrow> string \<Rightarrow> string \<Rightarrow> string option \<Rightarrow> real" where
  "seconds_of_parts h mm ss f =
     (case h of None \<Rightarrow> 0 | Some hs \<Rightarrow> of_nat (int_of_digits hs)) * 3600
     + of_nat (int_of_digits mm) * 60
     + (of_nat (int_of_digits ss)
        + (case f of None \<Rightarrow> 0 | Some fs \<Rightarrow> of_nat (int_of_digits fs) / 10 ^ length fs))"

definition frac_text :: "string option \<Rightarrow> string" where
  "frac_text f = (case f of None \<Rightarrow> [] | Some fs \<Rightarrow> ''.'' @ fs)"




text \<open>
  A \<open>float_other\<close> for examples: \<open>float()\<close> raising on every argument that is not
  a number.
\<close>

definition float_raises :: "pyval \<Rightarrow> error + real" where
  "float_raises x = Inl (CastError x)"

text \<open>
  A cell that names the age column for header detection, and a row with such a cell.
\<close>

definition cell_names_age :: "string \<Rightarrow> bool" where
  "cell_names_age c = (lower (strip c) = ''age'' \<or> startswith (lower (strip c)) ''age'')"

definition header_candidate :: "string list \<Rightarrow> bool" where
  "header_candidate row = list_ex cell_names_age row"

text \<open>
  The resolution of one role in the words of the specification: the first alias, in
  the order of the list, that is the normalized name of a sheet wins, and stands for
  the sheet of that normalized name (the last one, when several sheets share it);
  only when no alias matches, the first sheet whose lower-cased raw name contains the
  needle is taken.
\<close>

definition resolve_role :: "string list \<Rightarrow> string \<Rightarrow> string list \<Rightarrow> string option" where
  "resolve_role aliases needle sheets =
     (case find (\<lambda>k. k \<in> normalize_key ` set sheets) aliases of
        Some k \<Rightarrow> find (\<lambda>s. normalize_key s = k) (rev sheets)
      | None \<Rightarrow> find (\<lambda>s. contains (lower s) needle) sheets)"

text \<open>The roles left unresolved, in the order the error names them.\<close>

definition missing_roles :: "string option \<Rightarrow> string option \<Rightarrow> string option \<Rightarrow> string list" where
  "missing_roles f s h =
     (if f = None then [''factors''] else []) @ (if s = None then [''sec''] else []) @
     (if h = None then [''hms''] else [])"



section \<open>Properties of the time-to-seconds transform\<close>

text \<open>
  C4. For a numeric argument (an instance of \<open>int\<close> or \<open>float\<close>) with value \<open>v\<close>,
  \<open>hms_to_seconds\<close> returns \<open>v * 86400\<close> when \<open>0 < v \<le> 1\<close> and \<open>v\<close> itself
  otherwise.
\<close>

theorem hms_to_seconds_numeric:
  "hms_to_seconds (PyFloat v) = Inr (Some (if 0 < v \<and> v \<le> 1 then v * 86400 else v))
   \<and> hms_to_seconds (PyInt n) =
       Inr (Some (if 0 < real_of_int n \<and> real_of_int n \<le> 1 then real_of_int n * 86400
                  else real_of_int n))
   \<and> hms_to_seconds (PyBool b) =
       Inr (Some (if 0 < (if b then 1 else 0 :: real) \<and> (if b then 1 else 0 :: real) \<le> 1
                  then (if b then 1 else 0) * 86400 else (if b then 1 else 0)))"
  by (simp add: hms_of_number_def)





lemma digit_not_space: "is_digit c \<Longrightarrow> \<not> is_space c"
  by (simp add: is_digit_def is_space_def Let_def)

lemma colon_dot_not_digit: "\<not> is_digit CHR '':''" "\<not> is_digit CHR ''.''"
  by (simp_all add: is_digit_def)

lemma span_digits_stop:
  assumes "list_all is_digit ds" "\<not> is_digit c"
  shows "takeWhile is_digit (ds @ c # r) = ds" "dropWhile is_digit (ds @ c # r) = c # r"
  using assms by (induction ds) auto

lemma span_digits_all:
  assumes "list_all is_digit ds"
  shows "takeWhile is_digit ds = ds" "dropWhile is_digit ds = []"
  using assms by (induction ds) auto

lemma strip_id:
  assumes "s \<noteq> []" "\<not> is_space (hd s)" "\<not> is_space (last s)"
  shows "strip s = s"
proof -
  have 1: "dropWhile is_space s = s" using assms(1,2) by (cases s) auto
  have "rev s \<noteq> []" "\<not> is_space (hd (rev s))" using assms(1,3) by (simp_all add: hd_rev)
  then have 2: "dropWhile is_space (rev s) = rev s" by (cases "rev s") auto
  show ?thesis by (simp add: strip_def 1 2)
qed

lemma isdigit_hd_last:
  assumes "isdigit s"
  shows "s \<noteq> []" "is_digit (hd s)" "is_digit (last s)"
  using assms by (auto simp: isdigit_def list_all_iff)

lemma strip_time_string:
  assumes "time_parts h mm ss f"
  shows "strip (time_string h mm ss f) = time_string h mm ss f"
proof (rule strip_id)
  show "time_string h mm ss f \<noteq> []" by (simp add: time_string_def)
  have "is_digit (hd (time_string h mm ss f))"
    using assms isdigit_hd_last(1,2)[of mm] isdigit_hd_last(1,2)[of "the h"]
    by (cases h) (simp_all add: time_string_def time_parts_def)
  then show "\<not> is_space (hd (time_string h mm ss f))" by (rule digit_not_space)
  have "is_digit (last (time_string h mm ss f))"
    using assms isdigit_hd_last(1,3)[of ss] isdigit_hd_last(1,3)[of "the f"]
    by (cases f) (simp_all add: time_string_def time_parts_def)
  then show "\<not> is_space (last (time_string h mm ss f))" by (rule digit_not_space)
qed

lemma match_sec_parts:
  assumes "isdigit ss" "case f of None \<Rightarrow> True | Some fs \<Rightarrow> isdigit fs"
  shows "match_sec (ss @ frac_text f)"
proof -
  have ss: "ss \<noteq> []" "list_all is_digit ss" using assms(1) by (simp_all add: isdigit_def)
  show ?thesis
  proof (cases f)
    case None
    show ?thesis
      by (simp add: match_sec_def None frac_text_def ss(1) span_digits_all[OF ss(2)]
            ss(2)[unfolded list_all_iff])
  next
    case (Some fs)
    then have fs: "isdigit fs" using assms(2) by simp
    show ?thesis
      by (simp add: match_sec_def Some frac_text_def ss(1) fs
            span_digits_stop[OF ss(2) colon_dot_not_digit(2)])
  qed
qed

lemma match_min_sec_parts:
  assumes "isdigit mm" "isdigit ss" "case f of None \<Rightarrow> True | Some fs \<Rightarrow> isdigit fs"
  shows "match_min_sec (mm @ '':'' @ ss @ frac_text f) = Some (mm, ss @ frac_text f)"
proof -
  have mm: "mm \<noteq> []" "list_all is_digit mm" using assms(1) by (simp_all add: isdigit_def)
  show ?thesis
    by (simp add: match_min_sec_def mm(1) span_digits_stop[OF mm(2) colon_dot_not_digit(1)]
          match_sec_parts[OF assms(2,3)])
qed

lemma match_min_sec_no_colon:
  assumes "isdigit ss" "case f of None \<Rightarrow> True | Some fs \<Rightarrow> isdigit fs"
  shows "match_min_sec (ss @ frac_text f) = None"
proof -
  have ss: "ss \<noteq> []" "list_all is_digit ss" using assms(1) by (simp_all add: isdigit_def)
  show ?thesis
  proof (cases f)
    case None
    show ?thesis
      by (simp add: match_min_sec_def None frac_text_def span_digits_all[OF ss(2)]
            ss(2)[unfolded list_all_iff])
  next
    case (Some fs)
    show ?thesis
      by (simp add: match_min_sec_def Some frac_text_def
            span_digits_stop[OF ss(2) colon_dot_not_digit(2)])
  qed
qed

lemma TIME_RE_match_time_string:
  assumes "time_parts h mm ss f"
  shows "TIME_RE_match (time_string h mm ss f) = Some (h, mm, ss @ frac_text f)"
proof -
  have p: "isdigit mm" "isdigit ss" "case f of None \<Rightarrow> True | Some fs \<Rightarrow> isdigit fs"
    using assms by (simp_all add: time_parts_def)
  have mm: "mm \<noteq> []" "list_all is_digit mm" using p(1) by (simp_all add: isdigit_def)
  note m1 = match_min_sec_parts[OF p]
  show ?thesis
  proof (cases h)
    case None
    have 1: "takeWhile is_digit (mm @ '':'' @ ss @ frac_text f) = mm"
            "dropWhile is_digit (mm @ '':'' @ ss @ frac_text f) = CHR '':'' # (ss @ frac_text f)"
      using span_digits_stop[OF mm(2) colon_dot_not_digit(1)] by simp_all
    have ts: "time_string h mm ss f = mm @ '':'' @ ss @ frac_text f"
      using None by (simp add: time_string_def frac_text_def)
    show ?thesis
      unfolding ts TIME_RE_match_def 1 Let_def
      using mm(1) m1 match_min_sec_no_colon[OF p(2,3)] None by simp
  next
    case (Some hs)
    then have hs: "hs \<noteq> []" "list_all is_digit hs"
      using assms by (simp_all add: time_parts_def isdigit_def)
    have ts: "time_string h mm ss f = hs @ CHR '':'' # (mm @ '':'' @ ss @ frac_text f)"
      using Some by (simp add: time_string_def frac_text_def)
    show ?thesis
      unfolding ts TIME_RE_match_def span_digits_stop[OF hs(2) colon_dot_not_digit(1)] Let_def
      using hs(1) m1 Some by simp
  qed
qed

lemma float_of_decimal_parts:
  assumes "isdigit ss" "case f of None \<Rightarrow> True | Some fs \<Rightarrow> isdigit fs"
  shows "float_of_decimal (ss @ frac_text f) =
         of_nat (int_of_digits ss) + (case f of None \<Rightarrow> 0 | Some fs \<Rightarrow> of_nat (int_of_digits fs) / 10 ^ length fs)"
proof -
  have ss: "list_all is_digit ss" using assms(1) by (simp add: isdigit_def)
  show ?thesis
  proof (cases f)
    case None
    show ?thesis
      by (simp add: float_of_decimal_def None frac_text_def span_digits_all[OF ss])
  next
    case (Some fs)
    show ?thesis
      by (simp add: float_of_decimal_def Some frac_text_def
            span_digits_stop[OF ss colon_dot_not_digit(2)])
  qed
qed

lemma hms_of_time_string:
  assumes "time_parts h mm ss f"
  shows "hms_to_seconds (PyStr (time_string h mm ss f)) = Inr (Some (seconds_of_parts h mm ss f))"
proof -
  have p: "isdigit ss" "case f of None \<Rightarrow> True | Some fs \<Rightarrow> isdigit fs"
    using assms by (simp_all add: time_parts_def)
  show ?thesis
    by (simp add: hms_of_text_def strip_time_string[OF assms] TIME_RE_match_time_string[OF assms]
        float_of_decimal_parts[OF p] seconds_of_parts_def split: option.split)
qed












section \<open>Properties of the int-if-whole transform\<close>

lemma is_integer_frac: "is_integer v \<longleftrightarrow> frac v = 0"
  by (simp add: is_integer_def frac_def)

lemma py_int_of_float_whole: "frac v = 0 \<Longrightarrow> py_int_of_float v = \<lfloor>v\<rfloor>"
  unfolding py_int_of_float_def frac_def by (simp add: ceiling_altdef)

lemma num_whole:
  assumes "x \<noteq> NA" "py_float fo x = Inr v"
  shows "num_to_int_if_whole fo x = Inr (Some (if frac v = 0 then JInt \<lfloor>v\<rfloor> else JFloat v))"
  using assms by (simp add: num_to_int_if_whole_def isna_def is_integer_frac py_int_of_float_whole)

lemma num_raise:
  assumes "x \<noteq> NA" "py_float fo x = Inl e"
  shows "num_to_int_if_whole fo x = Inl e"
  using assms by (simp add: num_to_int_if_whole_def isna_def)

text \<open>
  C8. \<open>num_to_int_if_whole\<close> returns \<open>None\<close> for a missing value; otherwise, with
  \<open>v\<close> the value cast to a float, it returns the integer \<open>v\<close> when \<open>v\<close> has no
  fractional part and the float \<open>v\<close> unchanged when it has one (a cast that raises ends
  the call with its error). A number is cast to its own value.
\<close>

theorem num_to_int_if_whole_cases:
  "num_to_int_if_whole fo NA = Inr None \<and>
   (\<forall>x v. x \<noteq> NA \<and> py_float fo x = Inr v \<longrightarrow>
      num_to_int_if_whole fo x = Inr (Some (if frac v = 0 then JInt \<lfloor>v\<rfloor> else JFloat v))) \<and>
   (\<forall>x e. x \<noteq> NA \<and> py_float fo x = Inl e \<longrightarrow> num_to_int_if_whole fo x = Inl e) \<and>
   py_float fo (PyFloat w) = Inr w \<and> py_float fo (PyInt n) = Inr (of_int n) \<and>
   py_float fo (PyBool b) = Inr (if b then 1 else 0)"
proof (intro conjI allI impI)
  show "num_to_int_if_whole fo NA = Inr None"
    by (simp add: num_to_int_if_whole_def isna_def)
next
  fix x v assume "x \<noteq> NA \<and> py_float fo x = Inr v"
  then show "num_to_int_if_whole fo x = Inr (Some (if frac v = 0 then JInt \<lfloor>v\<rfloor> else JFloat v))"
    using num_whole by blast
next
  fix x e assume "x \<noteq> NA \<and> py_float fo x = Inl e"
  then show "num_to_int_if_whole fo x = Inl e" using num_raise by blast
qed (simp_all add: py_float_def)

lemma frac_examples: "frac (1225::real) = 0" "\<lfloor>1225::real\<rfloor> = 1225" "frac (12.5::real) \<noteq> 0"
proof -
  show "frac (1225::real) = 0" by simp
  show "\<lfloor>1225::real\<rfloor> = 1225" by simp
  have "\<lfloor>12.5::real\<rfloor> = 12" by (simp add: floor_eq_iff)
  then show "frac (12.5::real) \<noteq> 0" by (simp add: frac_def)
qed

theorem num_to_int_if_whole_cases_witness:
  "PyFloat 1225 \<noteq> NA \<and> py_float float_raises (PyFloat 1225) = Inr 1225 \<and>
   num_to_int_if_whole float_raises (PyFloat 1225) = Inr (Some (JInt 1225)) \<and>
   PyFloat 12.5 \<noteq> NA \<and> py_float float_raises (PyFloat 12.5) = Inr 12.5 \<and>
   num_to_int_if_whole float_raises (PyFloat 12.5) = Inr (Some (JFloat 12.5)) \<and>
   PyStr ''n/a'' \<noteq> NA \<and> py_float float_raises (PyStr ''n/a'') = Inl (CastError (PyStr ''n/a'')) \<and>
   num_to_int_if_whole float_raises (PyStr ''n/a'') = Inl (CastError (PyStr ''n/a'')) \<and>
   num_to_int_if_whole float_raises NA = Inr None"
proof -
  note t = num_to_int_if_whole_cases[of float_raises 0 0 False]
  note whole = t[THEN conjunct2, THEN conjunct1, rule_format]
  note raise = t[THEN conjunct2, THEN conjunct2, THEN conjunct1, rule_format]
  have a: "PyFloat 1225 \<noteq> NA \<and> py_float float_raises (PyFloat 1225) = Inr 1225"
    and b: "PyFloat 12.5 \<noteq> NA \<and> py_float float_raises (PyFloat 12.5) = Inr 12.5"
    and c: "PyStr ''n/a'' \<noteq> NA \<and>
            py_float float_raises (PyStr ''n/a'') = Inl (CastError (PyStr ''n/a''))"
    by (simp_all add: py_float_def float_raises_def)
  have r1: "num_to_int_if_whole float_raises (PyFloat 1225) = Inr (Some (JInt 1225))"
    unfolding whole[OF a] by (simp add: frac_examples(1,2))
  have r2: "num_to_int_if_whole float_raises (PyFloat 12.5) = Inr (Some (JFloat 12.5))"
    unfolding whole[OF b] by (simp add: frac_examples(3))
  note r3 = raise[OF c]
  note r4 = t[THEN conjunct1]
  show ?thesis using a b c r1 r2 r3 r4 by blast
qed

section \<open>Properties of header detection\<close>

lemma row_has_needle_age: "row_has_needle ''age'' row = header_candidate row"
  by (simp add: row_has_needle_def header_candidate_def cell_names_age_def list_ex_iff)

lemma find_header_from_Some:
  "find_header_from k needle rows = Some r \<longleftrightarrow>
     (\<exists>i<length rows. r = k + i \<and> row_has_needle needle (rows ! i) \<and>
        (\<forall>j<i. \<not> row_has_needle needle (rows ! j)))"
proof (induction rows arbitrary: k)
  case Nil
  then show ?case by simp
next
  case (Cons row rest)
  show ?case
  proof (cases "row_has_needle needle row")
    case True
    have "(\<exists>i<length (row # rest). r = k + i \<and> row_has_needle needle ((row # rest) ! i) \<and>
            (\<forall>j<i. \<not> row_has_needle needle ((row # rest) ! j))) \<longleftrightarrow> r = k" (is "?R \<longleftrightarrow> _")
    proof
      assume ?R
      then obtain i where i: "r = k + i" "\<forall>j<i. \<not> row_has_needle needle ((row # rest) ! j)"
        by blast
      have "i = 0"
      proof (rule ccontr)
        assume "i \<noteq> 0"
        then have "0 < i" by simp
        with i(2) have "\<not> row_has_needle needle ((row # rest) ! 0)" by blast
        with True show False by simp
      qed
      with i(1) show "r = k" by simp
    next
      assume "r = k"
      with True show ?R by (intro exI[of _ 0]) simp
    qed
    with True show ?thesis by auto
  next
    case False
    have "(\<exists>i<length rest. r = Suc k + i \<and> row_has_needle needle (rest ! i) \<and>
            (\<forall>j<i. \<not> row_has_needle needle (rest ! j))) \<longleftrightarrow>
          (\<exists>i<length (row # rest). r = k + i \<and> row_has_needle needle ((row # rest) ! i) \<and>
            (\<forall>j<i. \<not> row_has_needle needle ((row # rest) ! j)))" (is "?L \<longleftrightarrow> ?R")
    proof
      assume ?L
      then obtain i where i: "i < length rest" "r = Suc k + i" "row_has_needle needle (rest ! i)"
        "\<forall>j<i. \<not> row_has_needle needle (rest ! j)" by blast
      have "\<forall>j<Suc i. \<not> row_has_needle needle ((row # rest) ! j)"
        using i(4) False by (auto simp: nth_Cons split: nat.splits)
      with i(1-3) show ?R by (intro exI[of _ "Suc i"]) simp
    next
      assume ?R
      then obtain i where i: "i < length (row # rest)" "r = k + i"
        "row_has_needle needle ((row # rest) ! i)"
        "\<forall>j<i. \<not> row_has_needle needle ((row # rest) ! j)" by blast
      with False obtain i' where i': "i = Suc i'" by (cases i) auto
      have "\<forall>j<i'. \<not> row_has_needle needle (rest ! j)"
        using i(4) i' by (metis Suc_less_eq nth_Cons_Suc)
      with i i' show ?L by (intro exI[of _ i']) simp
    qed
    with False Cons.IH[of "Suc k"] show ?thesis by simp
  qed
qed

lemma find_header_from_None:
  "find_header_from k needle rows = None \<longleftrightarrow> (\<forall>i<length rows. \<not> row_has_needle needle (rows ! i))"
proof (induction rows arbitrary: k)
  case Nil
  then show ?case by simp
next
  case (Cons row rest)
  have "(\<forall>i<length (row # rest). \<not> row_has_needle needle ((row # rest) ! i)) \<longleftrightarrow>
        (\<not> row_has_needle needle row \<and> (\<forall>i<length rest. \<not> row_has_needle needle (rest ! i)))"
    by (simp add: All_less_Suc2)
  then show ?case using Cons.IH[of "Suc k"] by simp
qed

lemma detected_header_first:
  assumes "r < min 50 (length raw)" "header_candidate (raw ! r)"
    "\<forall>j<r. \<not> header_candidate (raw ! j)"
  shows "detected_header raw = r"
proof -
  let ?rows = "take (min 50 (length raw)) raw"
  have "find_header_from 0 ''age'' ?rows = Some r"
    unfolding find_header_from_Some using assms
    by (intro exI[of _ r]) (auto simp: row_has_needle_age)
  then show ?thesis by (simp add: detected_header_def find_header_row_def)
qed

lemma detected_header_default:
  assumes "\<forall>r<min 50 (length raw). \<not> header_candidate (raw ! r)"
  shows "detected_header raw = 0"
proof -
  let ?rows = "take (min 50 (length raw)) raw"
  have "find_header_from 0 ''age'' ?rows = None"
    unfolding find_header_from_None using assms by (auto simp: row_has_needle_age)
  then show ?thesis by (simp add: detected_header_def find_header_row_def)
qed

lemma cell_Age: "cell_names_age ''Age''"
  by code_simp

text \<open>
  C6. Header detection returns the smallest index among the first
  \<open>min(50, number of rows)\<close> rows of a row with a cell that, stripped and lower-cased,
  equals or starts with \<open>age\<close>; without such a row it returns 0. When no row before
  row 3 has such a cell and row 3 has the cell \<open>Age\<close>, it returns 3.
\<close>

theorem detected_header_smallest:
  "(\<forall>r. r < min 50 (length raw) \<and> header_candidate (raw ! r) \<and>
        (\<forall>j<r. \<not> header_candidate (raw ! j)) \<longrightarrow> detected_header raw = r) \<and>
   ((\<forall>r<min 50 (length raw). \<not> header_candidate (raw ! r)) \<longrightarrow> detected_header raw = 0) \<and>
   (3 < length raw \<and> (\<forall>j<3. \<not> header_candidate (raw ! j)) \<and> ''Age'' \<in> set (raw ! 3)
      \<longrightarrow> detected_header raw = 3)"
proof (intro conjI allI impI)
  fix r assume "r < min 50 (length raw) \<and> header_candidate (raw ! r) \<and>
        (\<forall>j<r. \<not> header_candidate (raw ! j))"
  then show "detected_header raw = r" using detected_header_first by blast
next
  assume "\<forall>r<min 50 (length raw). \<not> header_candidate (raw ! r)"
  then show "detected_header raw = 0" by (rule detected_header_default)
next
  assume a: "3 < length raw \<and> (\<forall>j<3. \<not> header_candidate (raw ! j)) \<and> ''Age'' \<in> set (raw ! 3)"
  then have "header_candidate (raw ! 3)"
    using cell_Age by (auto simp: header_candidate_def list_ex_iff)
  with a show "detected_header raw = 3" by (intro detected_header_first) auto
qed

theorem detected_header_smallest_witness:
  "3 < length [[''Road'', ''nan''], [''nan''], [''Standards''], [''Event'', ''Age''], [''5'']] \<and>
   \<not> header_candidate ([[''Road'', ''nan''], [''nan''], [''Standards''], [''Event'', ''Age''], [''5'']] ! 0) \<and>
   \<not> header_candidate ([[''Road'', ''nan''], [''nan''], [''Standards''], [''Event'', ''Age''], [''5'']] ! 1) \<and>
   \<not> header_candidate ([[''Road'', ''nan''], [''nan''], [''Standards''], [''Event'', ''Age''], [''5'']] ! 2) \<and>
   ''Age'' \<in> set ([[''Road'', ''nan''], [''nan''], [''Standards''], [''Event'', ''Age''], [''5'']] ! 3) \<and>
   detected_header [[''Road'', ''nan''], [''nan''], [''Standards''], [''Event'', ''Age''], [''5'']] = 3"
proof -
  define raw where "raw = [[''Road'', ''nan''], [''nan''], [''Standards''], [''Event'', ''Age''], [''5'']]"
  have n0: "\<not> header_candidate [''Road'', ''nan'']" by code_simp
  have n1: "\<not> header_candidate [''nan'']" by code_simp
  have n2: "\<not> header_candidate [''Standards'']" by code_simp
  have len: "3 < length raw" by (simp add: raw_def)
  have pre: "\<forall>j<3. \<not> header_candidate (raw ! j)"
    using n0 n1 n2 by (simp add: raw_def All_less_Suc eval_nat_numeral)
  have age: "''Age'' \<in> set (raw ! 3)" by (simp add: raw_def)
  have "detected_header raw = 3"
    using detected_header_smallest[of raw, THEN conjunct2, THEN conjunct2] len pre age by blast
  then show ?thesis using n0 n1 n2 unfolding raw_def by simp
qed

section \<open>Properties of age column detection\<close>

lemma startswith_iff: "startswith s p \<longleftrightarrow> (\<exists>r. s = p @ r)"
proof
  assume "startswith s p"
  then have "s = p @ drop (length p) s"
    unfolding startswith_def by (metis append_take_drop_id)
  then show "\<exists>r. s = p @ r" ..
next
  assume "\<exists>r. s = p @ r"
  then show "startswith s p" by (auto simp: startswith_def)
qed

lemma contains_iff: "contains s sub \<longleftrightarrow> (\<exists>a b. s = a @ sub @ b)"
proof (induction s)
  case Nil
  then show ?case by auto
next
  case (Cons c cs)
  show ?case
  proof
    assume "contains (c # cs) sub"
    then consider "startswith (c # cs) sub" | "contains cs sub" by auto
    then show "\<exists>a b. c # cs = a @ sub @ b"
    proof cases
      case 1
      then obtain r where "c # cs = sub @ r" unfolding startswith_iff ..
      then have "c # cs = [] @ sub @ r" by simp
      then show ?thesis by blast
    next
      case 2
      then obtain a b where "cs = a @ sub @ b" using Cons.IH by blast
      then have "c # cs = (c # a) @ sub @ b" by simp
      then show ?thesis by blast
    qed
  next
    assume "\<exists>a b. c # cs = a @ sub @ b"
    then obtain a b where ab: "c # cs = a @ sub @ b" by blast
    show "contains (c # cs) sub"
    proof (cases a)
      case Nil
      with ab have "startswith (c # cs) sub" unfolding startswith_iff by auto
      then show ?thesis by simp
    next
      case (Cons x a')
      with ab have "cs = a' @ sub @ b" by simp
      then have "contains cs sub" using Cons.IH by blast
      then show ?thesis by simp
    qed
  qed
qed

lemma strip_inside: "\<exists>a b. s = a @ strip s @ b"
proof -
  let ?d = "dropWhile is_space s"
  have 1: "s = takeWhile is_space s @ ?d" by simp
  have "rev ?d = takeWhile is_space (rev ?d) @ dropWhile is_space (rev ?d)" by simp
  then have "?d = rev (dropWhile is_space (rev ?d)) @ rev (takeWhile is_space (rev ?d))"
    by (metis rev_append rev_rev_ident)
  then have "?d = strip s @ rev (takeWhile is_space (rev ?d))" by (simp add: strip_def)
  with 1 have "s = takeWhile is_space s @ strip s @ rev (takeWhile is_space (rev ?d))" by simp
  then show ?thesis by blast
qed

lemma age_like_startswith: "age_like cl \<Longrightarrow> startswith cl ''age''"
  by (auto simp: age_like_def startswith_iff)

lemma age_like_contains:
  assumes "age_like (lower (strip c))"
  shows "contains (lower c) ''age''"
proof -
  obtain r where r: "lower (strip c) = ''age'' @ r"
    using age_like_startswith[OF assms] unfolding startswith_iff ..
  obtain a b where "c = a @ strip c @ b" using strip_inside by blast
  then have "lower c = lower a @ lower (strip c) @ lower b"
    unfolding lower_def by (metis map_append)
  then have "lower c = lower a @ ''age'' @ (r @ lower b)" using r by simp
  then show ?thesis unfolding contains_iff by blast
qed

lemma find_first:
  assumes "i < length xs" "P (xs ! i)" "\<forall>j<i. \<not> P (xs ! j)"
  shows "find P xs = Some (xs ! i)"
  unfolding find_Some_iff using assms by blast

lemma find_age_col_error_iff:
  "(\<exists>e. find_age_col cols = Inl e) \<longleftrightarrow> (\<forall>c\<in>set cols. \<not> contains (lower c) ''age'')"
proof
  assume "\<exists>e. find_age_col cols = Inl e"
  then have "find (\<lambda>c. contains (lower c) ''age'') cols = None"
    by (auto simp: find_age_col_def split: option.splits)
  then show "\<forall>c\<in>set cols. \<not> contains (lower c) ''age''" by (simp add: find_None_iff)
next
  assume a: "\<forall>c\<in>set cols. \<not> contains (lower c) ''age''"
  then have 2: "find (\<lambda>c. contains (lower c) ''age'') cols = None" by (simp add: find_None_iff)
  from a have "\<forall>c\<in>set cols. \<not> age_like (lower (strip c))" using age_like_contains by blast
  then have 1: "find (\<lambda>c. age_like (lower (strip c))) cols = None" by (simp add: find_None_iff)
  show "\<exists>e. find_age_col cols = Inl e" by (simp add: find_age_col_def 1 2)
qed

text \<open>
  C7. \<open>find_age_col\<close> returns the first column whose stripped, lower-cased name is
  \<open>age\<close> or starts with \<open>age\<close> and a space, \<open>(\<close>, \<open>/\<close> or \<open>-\<close>; when there is
  none, the first column whose lower-cased name contains \<open>age\<close>; it raises exactly
  when no lower-cased name contains \<open>age\<close>, and the error reports all the names.
\<close>

theorem find_age_col_result:
  "(\<forall>i. i < length cols \<and> age_like (lower (strip (cols ! i))) \<and>
        (\<forall>j<i. \<not> age_like (lower (strip (cols ! j)))) \<longrightarrow> find_age_col cols = Inr (cols ! i)) \<and>
   (\<forall>i. (\<forall>c\<in>set cols. \<not> age_like (lower (strip c))) \<and> i < length cols \<and>
        contains (lower (cols ! i)) ''age'' \<and> (\<forall>j<i. \<not> contains (lower (cols ! j)) ''age'')
        \<longrightarrow> find_age_col cols = Inr (cols ! i)) \<and>
   ((\<exists>e. find_age_col cols = Inl e) \<longleftrightarrow> (\<forall>c\<in>set cols. \<not> contains (lower c) ''age'')) \<and>
   (\<forall>e. find_age_col cols = Inl e \<longrightarrow> e = RuntimeError_age cols)"
proof (intro conjI allI impI)
  fix i
  assume "i < length cols \<and> age_like (lower (strip (cols ! i))) \<and>
        (\<forall>j<i. \<not> age_like (lower (strip (cols ! j))))"
  then have "find (\<lambda>c. age_like (lower (strip c))) cols = Some (cols ! i)"
    by (intro find_first) simp_all
  then show "find_age_col cols = Inr (cols ! i)" by (simp add: find_age_col_def)
next
  fix i
  assume a: "(\<forall>c\<in>set cols. \<not> age_like (lower (strip c))) \<and> i < length cols \<and>
        contains (lower (cols ! i)) ''age'' \<and> (\<forall>j<i. \<not> contains (lower (cols ! j)) ''age'')"
  then have 1: "find (\<lambda>c. age_like (lower (strip c))) cols = None" by (simp add: find_None_iff)
  from a have "find (\<lambda>c. contains (lower c) ''age'') cols = Some (cols ! i)"
    by (intro find_first) simp_all
  then show "find_age_col cols = Inr (cols ! i)" by (simp add: find_age_col_def 1)
next
  show "(\<exists>e. find_age_col cols = Inl e) \<longleftrightarrow> (\<forall>c\<in>set cols. \<not> contains (lower c) ''age'')"
    by (rule find_age_col_error_iff)
next
  fix e assume "find_age_col cols = Inl e"
  then show "e = RuntimeError_age cols"
    by (auto simp: find_age_col_def split: option.splits)
qed

theorem find_age_col_result_witness:
  "2 < length [''Name'', ''Stage'', ''AGE (yrs)'', ''Age''] \<and>
   age_like (lower (strip ([''Name'', ''Stage'', ''AGE (yrs)'', ''Age''] ! 2))) \<and>
   \<not> age_like (lower (strip ([''Name'', ''Stage'', ''AGE (yrs)'', ''Age''] ! 0))) \<and>
   \<not> age_like (lower (strip ([''Name'', ''Stage'', ''AGE (yrs)'', ''Age''] ! 1))) \<and>
   find_age_col [''Name'', ''Stage'', ''AGE (yrs)'', ''Age''] = Inr ''AGE (yrs)'' \<and>
   \<not> contains (lower ''Name'') ''age'' \<and> \<not> contains (lower ''5 km'') ''age'' \<and>
   find_age_col [''Name'', ''5 km''] = Inl (RuntimeError_age [''Name'', ''5 km''])"
proof -
  define cols where "cols = [''Name'', ''Stage'', ''AGE (yrs)'', ''Age'']"
  have a2: "age_like (lower (strip ''AGE (yrs)''))" by code_simp
  have a0: "\<not> age_like (lower (strip ''Name''))" by code_simp
  have a1: "\<not> age_like (lower (strip ''Stage''))" by code_simp
  have pre: "2 < length cols \<and> age_like (lower (strip (cols ! 2))) \<and>
        (\<forall>j<2. \<not> age_like (lower (strip (cols ! j))))"
    using a0 a1 a2 by (simp add: cols_def All_less_Suc eval_nat_numeral)
  have r1: "find_age_col cols = Inr (cols ! 2)"
    using find_age_col_result[of cols, THEN conjunct1, rule_format, OF pre] .
  have c0: "\<not> contains (lower ''Name'') ''age''" by code_simp
  have c1: "\<not> contains (lower ''5 km'') ''age''" by code_simp
  have "\<exists>e. find_age_col [''Name'', ''5 km''] = Inl e"
    using find_age_col_result[of "[''Name'', ''5 km'']", THEN conjunct2, THEN conjunct2, THEN conjunct1]
      c0 c1 by simp
  then obtain e where e: "find_age_col [''Name'', ''5 km''] = Inl e" ..
  have "e = RuntimeError_age [''Name'', ''5 km'']"
    using find_age_col_result[of "[''Name'', ''5 km'']", THEN conjunct2, THEN conjunct2,
        THEN conjunct2, rule_format, OF e] .
  with e have r2: "find_age_col [''Name'', ''5 km''] = Inl (RuntimeError_age [''Name'', ''5 km''])"
    by simp
  show ?thesis using a0 a1 a2 c0 c1 r1 r2 by (simp add: cols_def)
qed

section \<open>Properties of the sheet resolver\<close>

lemma map_of_by_norm:
  "map_of (by_norm_of sheets) k = find (\<lambda>s. normalize_key s = k) (rev sheets)"
proof (induction sheets rule: rev_induct)
  case Nil
  then show ?case by (simp add: by_norm_of_def)
next
  case (snoc x xs)
  have "by_norm_of (xs @ [x]) = AList.update (normalize_key x) x (by_norm_of xs)"
    by (simp add: by_norm_of_def)
  then show ?case using snoc by (simp add: update_conv')
qed

lemma find_rev_None:
  "find (\<lambda>s. normalize_key s = k) (rev sheets) = None \<longleftrightarrow> k \<notin> normalize_key ` set sheets"
  by (auto simp: find_None_iff)

lemma pick_by_norm:
  "pick (by_norm_of sheets) aliases =
     (case find (\<lambda>k. k \<in> normalize_key ` set sheets) aliases of
        Some k \<Rightarrow> find (\<lambda>s. normalize_key s = k) (rev sheets)
      | None \<Rightarrow> None)"
proof (induction aliases)
  case Nil
  then show ?case by simp
next
  case (Cons k ks)
  show ?case
  proof (cases "k \<in> normalize_key ` set sheets")
    case True
    then obtain s where "find (\<lambda>s. normalize_key s = k) (rev sheets) = Some s"
      using find_rev_None[of k sheets] by (cases "find (\<lambda>s. normalize_key s = k) (rev sheets)") auto
    with True show ?thesis by (simp add: map_of_by_norm)
  next
    case False
    then have "find (\<lambda>s. normalize_key s = k) (rev sheets) = None"
      using find_rev_None[of k sheets] by simp
    with False Cons show ?thesis by (simp add: map_of_by_norm)
  qed
qed

lemma normalize_key_Nil: "normalize_key [] = []"
  by (simp add: normalize_key_def strip_def lower_def)

lemma pick_nonempty:
  assumes "pick (by_norm_of sheets) aliases = Some s" "[] \<notin> set aliases"
  shows "s \<noteq> []"
proof -
  from assms(1) obtain k where k: "find (\<lambda>k. k \<in> normalize_key ` set sheets) aliases = Some k"
    and s: "find (\<lambda>s. normalize_key s = k) (rev sheets) = Some s"
    unfolding pick_by_norm by (auto split: option.splits)
  from k have "k \<in> set aliases" by (metis find_Some_iff nth_mem)
  with assms(2) have "k \<noteq> []" by auto
  moreover from s have "normalize_key s = k" by (auto simp: find_Some_iff)
  ultimately show ?thesis using normalize_key_Nil by auto
qed

lemma find_contains_nonempty:
  assumes "find (\<lambda>s. contains (lower s) needle) sheets = Some s" "needle \<noteq> []"
  shows "s \<noteq> []"
proof -
  from assms(1) have "contains (lower s) needle" by (auto simp: find_Some_iff)
  with assms(2) show ?thesis by (auto simp: lower_def)
qed

lemma last_resort_pick:
  assumes "[] \<notin> set aliases"
  shows "last_resort needle sheets (pick (by_norm_of sheets) aliases) =
         resolve_role aliases needle sheets"
proof (cases "pick (by_norm_of sheets) aliases")
  case None
  then have n: "find (\<lambda>k. k \<in> normalize_key ` set sheets) aliases = None"
    unfolding pick_by_norm using find_rev_None
    by (auto split: option.splits simp: find_Some_iff)
  show ?thesis
    by (simp add: last_resort_def None py_not_def resolve_role_def n split: option.splits)
next
  case (Some s)
  then have ne: "s \<noteq> []" using pick_nonempty assms by blast
  from Some obtain k where k: "find (\<lambda>k. k \<in> normalize_key ` set sheets) aliases = Some k"
    and s: "find (\<lambda>s. normalize_key s = k) (rev sheets) = Some s"
    unfolding pick_by_norm by (auto split: option.splits)
  show ?thesis by (simp add: last_resort_def Some py_not_def ne resolve_role_def k s)
qed

lemma resolve_role_nonempty:
  assumes "resolve_role aliases needle sheets = Some s" "[] \<notin> set aliases" "needle \<noteq> []"
  shows "s \<noteq> []"
proof (cases "pick (by_norm_of sheets) aliases")
  case None
  with assms(1) have "find (\<lambda>s. contains (lower s) needle) sheets = Some s"
    unfolding last_resort_pick[OF assms(2), symmetric]
    by (auto simp: last_resort_def py_not_def split: option.splits)
  then show ?thesis using find_contains_nonempty assms(3) by blast
next
  case (Some s')
  then have "s' \<noteq> []" using pick_nonempty assms(2) by blast
  with Some assms(1) show ?thesis
    unfolding last_resort_pick[OF assms(2), symmetric]
    by (auto simp: last_resort_def py_not_def)
qed

lemma aliases_values:
  "factors_aliases = [''agestdfactors'', ''agefactors'', ''agefactors'', ''agefacctors'']"
  "sec_aliases = [''agestdsec'', ''agestansec'']"
  "hms_aliases = [''agestdhms'', ''agestanhms'']"
  by code_simp+

lemma aliases_nonempty:
  "[] \<notin> set factors_aliases" "[] \<notin> set sec_aliases" "[] \<notin> set hms_aliases"
  by (simp_all add: aliases_values)

lemma py_not_resolve:
  assumes "[] \<notin> set aliases" "needle \<noteq> []"
  shows "py_not (resolve_role aliases needle sheets) \<longleftrightarrow> resolve_role aliases needle sheets = None"
  using resolve_role_nonempty[OF _ assms] by (auto simp: py_not_def)

lemma missing_filter:
  assumes "py_not f \<longleftrightarrow> f = None" "py_not s \<longleftrightarrow> s = None" "py_not h \<longleftrightarrow> h = None"
  shows "map fst (filter (\<lambda>(k, v). py_not v) [(''factors'', f), (''sec'', s), (''hms'', h)]) =
         missing_roles f s h"
  using assms by (cases f; cases s; cases h) (simp_all add: missing_roles_def py_not_def)

lemma choose_sheets_unfold:
  "choose_sheets sheets =
     (let f = resolve_role factors_aliases ''factor'' sheets;
          s = resolve_role sec_aliases ''sec'' sheets;
          h = resolve_role hms_aliases ''hms'' sheets
      in if missing_roles f s h \<noteq> [] then Inl (RuntimeError_sheets (missing_roles f s h) sheets)
         else Inr \<lparr>factors_sheet = the f, sec_sheet = the s, hms_sheet = the h\<rparr>)"
proof -
  have f: "py_not (resolve_role factors_aliases ''factor'' sheets) \<longleftrightarrow>
           resolve_role factors_aliases ''factor'' sheets = None"
    by (rule py_not_resolve[OF aliases_nonempty(1)]) simp
  have s: "py_not (resolve_role sec_aliases ''sec'' sheets) \<longleftrightarrow>
           resolve_role sec_aliases ''sec'' sheets = None"
    by (rule py_not_resolve[OF aliases_nonempty(2)]) simp
  have h: "py_not (resolve_role hms_aliases ''hms'' sheets) \<longleftrightarrow>
           resolve_role hms_aliases ''hms'' sheets = None"
    by (rule py_not_resolve[OF aliases_nonempty(3)]) simp
  have m: "map fst (filter (\<lambda>(k, v). py_not v)
              [(''factors'', resolve_role factors_aliases ''factor'' sheets),
               (''sec'', resolve_role sec_aliases ''sec'' sheets),
               (''hms'', resolve_role hms_aliases ''hms'' sheets)]) =
           missing_roles (resolve_role factors_aliases ''factor'' sheets)
             (resolve_role sec_aliases ''sec'' sheets) (resolve_role hms_aliases ''hms'' sheets)"
    by (rule missing_filter[OF f s h])
  show ?thesis
    unfolding choose_sheets_def Let_def last_resort_pick[OF aliases_nonempty(1)]
      last_resort_pick[OF aliases_nonempty(2)] last_resort_pick[OF aliases_nonempty(3)] m
    by (rule refl)
qed

text \<open>
  C2. For every list of sheet names, \<open>choose_sheets\<close> resolves each of the roles
  \<open>factors\<close>, \<open>sec\<close> and \<open>hms\<close> as \<open>resolve_role\<close> says: by the first alias of
  its list that is the normalized name of a sheet, and only when no alias matches by
  the first sheet whose lower-cased raw name contains \<open>factor\<close>, \<open>sec\<close> or \<open>hms\<close>.
  It returns the three sheets when every role resolves and otherwise raises, naming
  the unresolved roles and the sheets. The sheets \<open>Age Facctors\<close>, \<open>AgeStanSec\<close>,
  \<open>AgeStanHMS\<close> resolve all three roles.
\<close>

theorem choose_sheets_resolution:
  "(\<forall>f s h. resolve_role factors_aliases ''factor'' sheets = Some f \<and>
        resolve_role sec_aliases ''sec'' sheets = Some s \<and>
        resolve_role hms_aliases ''hms'' sheets = Some h \<longrightarrow>
        choose_sheets sheets = Inr \<lparr>factors_sheet = f, sec_sheet = s, hms_sheet = h\<rparr>) \<and>
   (resolve_role factors_aliases ''factor'' sheets = None \<or>
    resolve_role sec_aliases ''sec'' sheets = None \<or>
    resolve_role hms_aliases ''hms'' sheets = None \<longrightarrow>
      choose_sheets sheets =
        Inl (RuntimeError_sheets
              (missing_roles (resolve_role factors_aliases ''factor'' sheets)
                 (resolve_role sec_aliases ''sec'' sheets)
                 (resolve_role hms_aliases ''hms'' sheets)) sheets))"
proof (intro conjI allI impI)
  fix f s h
  assume "resolve_role factors_aliases ''factor'' sheets = Some f \<and>
        resolve_role sec_aliases ''sec'' sheets = Some s \<and>
        resolve_role hms_aliases ''hms'' sheets = Some h"
  then show "choose_sheets sheets = Inr \<lparr>factors_sheet = f, sec_sheet = s, hms_sheet = h\<rparr>"
    by (simp add: choose_sheets_unfold missing_roles_def)
next
  assume "resolve_role factors_aliases ''factor'' sheets = None \<or>
    resolve_role sec_aliases ''sec'' sheets = None \<or>
    resolve_role hms_aliases ''hms'' sheets = None"
  then have "missing_roles (resolve_role factors_aliases ''factor'' sheets)
                 (resolve_role sec_aliases ''sec'' sheets)
                 (resolve_role hms_aliases ''hms'' sheets) \<noteq> []"
    by (auto simp: missing_roles_def)
  then show "choose_sheets sheets =
        Inl (RuntimeError_sheets
              (missing_roles (resolve_role factors_aliases ''factor'' sheets)
                 (resolve_role sec_aliases ''sec'' sheets)
                 (resolve_role hms_aliases ''hms'' sheets)) sheets)"
    by (simp add: choose_sheets_unfold)
qed

theorem choose_sheets_resolution_witness:
  "resolve_role factors_aliases ''factor'' [''Age Facctors'', ''AgeStanSec'', ''AgeStanHMS'']
     = Some ''Age Facctors'' \<and>
   resolve_role sec_aliases ''sec'' [''Age Facctors'', ''AgeStanSec'', ''AgeStanHMS'']
     = Some ''AgeStanSec'' \<and>
   resolve_role hms_aliases ''hms'' [''Age Facctors'', ''AgeStanSec'', ''AgeStanHMS'']
     = Some ''AgeStanHMS'' \<and>
   choose_sheets [''Age Facctors'', ''AgeStanSec'', ''AgeStanHMS''] =
     Inr \<lparr>factors_sheet = ''Age Facctors'', sec_sheet = ''AgeStanSec'', hms_sheet = ''AgeStanHMS''\<rparr>"
proof -
  have r: "resolve_role factors_aliases ''factor'' [''Age Facctors'', ''AgeStanSec'', ''AgeStanHMS'']
     = Some ''Age Facctors'' \<and>
   resolve_role sec_aliases ''sec'' [''Age Facctors'', ''AgeStanSec'', ''AgeStanHMS'']
     = Some ''AgeStanSec'' \<and>
   resolve_role hms_aliases ''hms'' [''Age Facctors'', ''AgeStanSec'', ''AgeStanHMS'']
     = Some ''AgeStanHMS''"
    by code_simp
  from choose_sheets_resolution[of "[''Age Facctors'', ''AgeStanSec'', ''AgeStanHMS'']",
      THEN conjunct1, rule_format, OF r] r
  show ?thesis by simp
qed

section \<open>Properties of the table reshaper\<close>

lemma digit_char_props:
  assumes "d < 10"
  shows "is_digit (digit_char d)" "digit_val (digit_char d) = d"
  using assms by (simp_all add: is_digit_def digit_val_def digit_char_def)

lemma show_nat_digits: "list_all is_digit (show_nat n) \<and> show_nat n \<noteq> []"
proof (induction n rule: show_nat.induct)
  case (1 n)
  show ?case
  proof (cases "n < 10")
    case True
    then show ?thesis by (subst (1 2) show_nat.simps) (simp add: digit_char_props)
  next
    case False
    have "is_digit (digit_char (n mod 10))" by (rule digit_char_props) simp
    with False 1 show ?thesis by (subst (1 2) show_nat.simps) simp
  qed
qed

lemma int_of_digits_snoc: "int_of_digits (xs @ [c]) = 10 * int_of_digits xs + digit_val c"
  by (simp add: int_of_digits_def)

lemma int_of_digits_show_nat: "int_of_digits (show_nat n) = n"
proof (induction n rule: show_nat.induct)
  case (1 n)
  show ?case
  proof (cases "n < 10")
    case True
    then show ?thesis
      by (subst show_nat.simps) (simp add: int_of_digits_def digit_char_props)
  next
    case False
    have "digit_val (digit_char (n mod 10)) = n mod 10" by (rule digit_char_props) simp
    with False 1 show ?thesis
      by (subst show_nat.simps) (simp add: int_of_digits_snoc)
  qed
qed

lemma isdigit_show_nat: "isdigit (show_nat n)"
  using show_nat_digits by (simp add: isdigit_def)

lemma strip_isdigit: "isdigit s \<Longrightarrow> strip s = s"
  using isdigit_hd_last[of s] digit_not_space by (intro strip_id) auto

lemma minus_not_digit_space: "\<not> is_digit CHR ''-''" "\<not> is_space CHR ''-''"
  by (simp_all add: is_digit_def is_space_def)

lemma strip_minus: "strip (CHR ''-'' # show_nat n) = CHR ''-'' # show_nat n"
proof (rule strip_id)
  show "\<not> is_space (last (CHR ''-'' # show_nat n))"
    using isdigit_hd_last(1,3)[OF isdigit_show_nat, of n] digit_not_space by simp
qed (simp_all add: minus_not_digit_space)

lemma keep_age_PyInt: "keep_age (PyInt n) \<longleftrightarrow> 0 \<le> n"
proof (cases "n < 0")
  case True
  then show ?thesis
    by (simp add: keep_age_def notna_def show_int_def strip_minus isdigit_def minus_not_digit_space)
next
  case False
  then show ?thesis
    by (simp add: keep_age_def notna_def show_int_def strip_isdigit[OF isdigit_show_nat]
        isdigit_show_nat)
qed

lemma keep_age_text:
  assumes "keep_age c"
  shows "c \<noteq> NA \<and> (\<exists>t. py_str c = Some t \<and> isdigit (strip t) \<and>
           astype_int c = int (int_of_digits (strip t)))"
proof (cases c)
  case (PyInt n)
  with assms have n: "0 \<le> n" using keep_age_PyInt by simp
  then have "show_int n = show_nat (nat n)" by (simp add: show_int_def)
  then show ?thesis using n PyInt
    by (simp add: astype_int_def strip_isdigit[OF isdigit_show_nat] isdigit_show_nat
        int_of_digits_show_nat)
qed (use assms in \<open>auto simp: keep_age_def notna_def astype_int_def\<close>)

lemma keep_age_nonneg: "keep_age c \<Longrightarrow> 0 \<le> astype_int c"
  using keep_age_text by fastforce

lemma select_by_mask: "map snd (filter fst (zip (map P xs) xs)) = filter P xs"
  by (induction xs) auto

lemma getitem_select_rows:
  "getitem (select_rows keep df) c = map snd (filter fst (zip keep (getitem df c)))"
proof -
  have "map_of (select_rows keep df) c =
        map_option (\<lambda>cells. map snd (filter fst (zip keep cells))) (map_of df c)"
    unfolding select_rows_def by (simp add: map_of_map)
  then show ?thesis by (cases "map_of df c") (simp_all add: getitem_def)
qed

lemma columns_select_rows: "map fst (select_rows keep df) = map fst df"
  by (simp add: select_rows_def case_prod_unfold comp_def)

lemma df_to_age_event_map_Inr:
  assumes "df_to_age_event_map df vp = Inr (ages, events, out)"
  obtains a where "find_age_col (map fst df) = Inr a"
    "ages = map astype_int (filter keep_age (getitem df a))"
    "events = map normalize_str (filter (\<lambda>c. c \<noteq> a) (map fst df))"
    "event_loop vp ages (select_rows (map keep_age (getitem df a)) df)
        (filter (\<lambda>c. c \<noteq> a) (map fst df)) [] = Inr out"
proof -
  from assms obtain a where a: "find_age_col (map fst df) = Inr a"
    by (cases "find_age_col (map fst df)") (simp_all add: df_to_age_event_map_def)
  let ?kept = "select_rows (map keep_age (getitem df a)) df"
  have g: "getitem ?kept a = filter keep_age (getitem df a)"
    by (simp add: getitem_select_rows select_by_mask)
  let ?ages = "map astype_int (filter keep_age (getitem df a))"
  let ?es = "filter (\<lambda>c. c \<noteq> a) (map fst df)"
  from assms a have r: "(case event_loop vp ?ages ?kept ?es [] of
          Inl e \<Rightarrow> Inl e
        | Inr out \<Rightarrow> Inr (?ages, map normalize_str ?es, out)) = Inr (ages, events, out)"
    by (simp add: df_to_age_event_map_def Let_def g columns_select_rows cong: sum.case_cong)
  show ?thesis
  proof (cases "event_loop vp ?ages ?kept ?es []")
    case (Inl e)
    with r show ?thesis by simp
  next
    case (Inr out')
    with r have "ages = ?ages" "events = map normalize_str ?es" "out' = out" by simp_all
    with a Inr show ?thesis using that by blast
  qed
qed

text \<open>
  C3 (amended). For every table with pairwise distinct labels on which
  \<open>df_to_age_event_map\<close> returns, the list of ages holds, in row order and with
  repetitions kept, one integer for each row whose age cell is not missing and has an
  all-digit stripped text: the integer these digits denote, which is never negative.
  The ages need be neither distinct nor positive (see
  \<open>ages_not_distinct_counterexample\<close>: the ages 5, 5, 0).
\<close>

theorem ages_of_table:
  assumes "wf_df df" "df_to_age_event_map df vp = Inr (ages, events, out)"
  shows "\<exists>a. find_age_col (map fst df) = Inr a \<and>
           ages = map astype_int (filter keep_age (getitem df a)) \<and>
           list_all (\<lambda>c. c \<noteq> NA \<and> (\<exists>t. py_str c = Some t \<and> isdigit (strip t) \<and>
                       astype_int c = int (int_of_digits (strip t))))
             (filter keep_age (getitem df a)) \<and>
           list_all (\<lambda>x. 0 \<le> x) ages"
proof -
  from assms(2) obtain a where a: "find_age_col (map fst df) = Inr a"
    "ages = map astype_int (filter keep_age (getitem df a))"
    by (rule df_to_age_event_map_Inr)
  have 1: "list_all (\<lambda>c. c \<noteq> NA \<and> (\<exists>t. py_str c = Some t \<and> isdigit (strip t) \<and>
                       astype_int c = int (int_of_digits (strip t))))
             (filter keep_age (getitem df a))"
    unfolding list_all_iff using keep_age_text by simp
  have 2: "list_all (\<lambda>x. 0 \<le> x) ages"
    unfolding a(2) list_all_iff using keep_age_nonneg by simp
  from a 1 2 show ?thesis by blast
qed

lemma hms_examples:
  "hms_to_seconds (PyStr ''20:25'') = Inr (Some 1225)"
  "hms_to_seconds (PyStr ''20:30'') = Inr (Some 1230)"
  "hms_to_seconds (PyStr ''21:00'') = Inr (Some 1260)"
proof -
  have p: "time_parts None ''20'' ''25'' None" "time_parts None ''20'' ''30'' None"
    "time_parts None ''21'' ''00'' None"
    by (simp_all add: time_parts_def isdigit_def is_digit_def)
  show "hms_to_seconds (PyStr ''20:25'') = Inr (Some 1225)"
    using hms_of_time_string[OF p(1)]
    by (simp add: time_string_def seconds_of_parts_def int_of_digits_def digit_val_def)
  show "hms_to_seconds (PyStr ''20:30'') = Inr (Some 1230)"
    using hms_of_time_string[OF p(2)]
    by (simp add: time_string_def seconds_of_parts_def int_of_digits_def digit_val_def)
  show "hms_to_seconds (PyStr ''21:00'') = Inr (Some 1260)"
    using hms_of_time_string[OF p(3)]
    by (simp add: time_string_def seconds_of_parts_def int_of_digits_def digit_val_def)
qed

lemma cell_examples:
  "keep_age (PyStr ''5'')" "keep_age (PyStr ''0'')" "\<not> keep_age (PyStr ''n/a'')"
  "astype_int (PyStr ''5'') = 5" "astype_int (PyStr ''0'') = 0"
  "show_int 5 = ''5''" "show_int 0 = ''0''"
  "normalize_str ''5 km'' = ''5 km''" "normalize_str ''5  km'' = ''5 km''"
  "find_age_col [''Age'', ''5 km''] = Inr ''Age''"
  "find_age_col [''Age'', ''5 km'', ''5  km''] = Inr ''Age''"
  by code_simp+

lemma table_example:
  "df_to_age_event_map
     [(''Age'', [PyStr ''5'', PyStr ''5'', PyStr ''0'']),
      (''5 km'', [PyStr ''20:25'', PyStr ''20:30'', PyStr ''21:00''])]
     hms_to_seconds =
   Inr ([5, 5, 0], [''5 km''], [(''5 km'', [(''5'', Some 1230), (''0'', Some 1260)])])"
  by (simp add: df_to_age_event_map_def Let_def select_rows_def getitem_def cell_examples
        hms_examples del: hms_to_seconds.simps)

lemma table_example_wf:
  "wf_df [(''Age'', [PyStr ''5'', PyStr ''5'', PyStr ''0'']),
          (''5 km'', [PyStr ''20:25'', PyStr ''20:30'', PyStr ''21:00''])]"
  by (simp add: wf_df_def)

theorem ages_not_distinct_counterexample:
  "wf_df [(''Age'', [PyStr ''5'', PyStr ''5'', PyStr ''0'']),
          (''5 km'', [PyStr ''20:25'', PyStr ''20:30'', PyStr ''21:00''])] \<and>
   df_to_age_event_map
     [(''Age'', [PyStr ''5'', PyStr ''5'', PyStr ''0'']),
      (''5 km'', [PyStr ''20:25'', PyStr ''20:30'', PyStr ''21:00''])]
     hms_to_seconds =
   Inr ([5, 5, 0], [''5 km''], [(''5 km'', [(''5'', Some 1230), (''0'', Some 1260)])]) \<and>
   \<not> distinct [5, 5, 0 :: int] \<and> \<not> 0 < (0 :: int)"
  using table_example table_example_wf by simp

theorem ages_of_table_witness:
  "wf_df 
     [(''Age'', [PyStr ''5'', PyStr ''5'', PyStr ''0'']),
      (''5 km'', [PyStr ''20:25'', PyStr ''20:30'', PyStr ''21:00''])] \<and>
   df_to_age_event_map 
     [(''Age'', [PyStr ''5'', PyStr ''5'', PyStr ''0'']),
      (''5 km'', [PyStr ''20:25'', PyStr ''20:30'', PyStr ''21:00''])] hms_to_seconds =
     Inr ([5, 5, 0], [''5 km''], [(''5 km'', [(''5'', Some 1230), (''0'', Some 1260)])]) \<and>
   (\<exists>a. find_age_col (map fst 
     [(''Age'', [PyStr ''5'', PyStr ''5'', PyStr ''0'']),
      (''5 km'', [PyStr ''20:25'', PyStr ''20:30'', PyStr ''21:00''])]) = Inr a \<and>
           [5, 5, 0] = map astype_int (filter keep_age (getitem 
     [(''Age'', [PyStr ''5'', PyStr ''5'', PyStr ''0'']),
      (''5 km'', [PyStr ''20:25'', PyStr ''20:30'', PyStr ''21:00''])] a)) \<and>
           list_all (\<lambda>c. c \<noteq> NA \<and> (\<exists>t. py_str c = Some t \<and> isdigit (strip t) \<and>
                       astype_int c = int (int_of_digits (strip t))))
             (filter keep_age (getitem 
     [(''Age'', [PyStr ''5'', PyStr ''5'', PyStr ''0'']),
      (''5 km'', [PyStr ''20:25'', PyStr ''20:30'', PyStr ''21:00''])] a)) \<and>
           list_all (\<lambda>x. 0 \<le> x) [5, 5, 0 :: int])"
proof -
  note r = ages_of_table[OF table_example_wf table_example]
  show ?thesis by (intro conjI table_example_wf table_example r)
qed

















end
